theory Spec2Isabelle
  imports Complex_Main
begin

section \<open>Python values, exceptions and the HTTP capability\<close>

text \<open>
  The exceptions that can occur in \<^verbatim>\<open>stressweb.py\<close>. All of them are instances of
  Python's \<^verbatim>\<open>Exception\<close> except \<^verbatim>\<open>CancelledError\<close>, which derives from
  \<^verbatim>\<open>BaseException\<close> only and therefore passes through an \<^verbatim>\<open>except Exception\<close>
  handler.
\<close>

datatype py_exc =
    ClientError
  | TimeoutError
  | UnboundLocalError
  | ZeroDivisionError
  | ValueError
  | TypeError
  | CancelledError

fun is_Exception :: "py_exc \<Rightarrow> bool" where
  "is_Exception CancelledError = False"
| "is_Exception _ = True"

text \<open>
  What one attempt can hand back to \<^verbatim>\<open>asyncio.gather\<close>: a boolean, \<^verbatim>\<open>None\<close>
  (falling off the end of the coroutine), or, with \<^verbatim>\<open>return_exceptions=True\<close>,
  the exception object itself.
\<close>

datatype py_value = PyBool bool | PyNone | PyExcObj py_exc

datatype http_verb = GET | POST

record request =
  rq_verb :: http_verb
  rq_url :: string
  rq_data :: "string option"
  rq_headers :: "(string \<times> string) list"
  rq_timeout :: int

text \<open>
  The external HTTP client (\<^verbatim>\<open>requests\<close>, \<^verbatim>\<open>aiohttp\<close>) is not part of the
  program: one call either yields a response with a status code or raises.
\<close>

datatype http_reply = Response int | Raises py_exc

type_synonym capability = "request \<Rightarrow> http_reply"

fun http_call :: "capability \<Rightarrow> request \<Rightarrow> py_exc + int" where
  "http_call cap rq = (case cap rq of Response st \<Rightarrow> Inr st | Raises e \<Rightarrow> Inl e)"

section \<open>The sender object\<close>

record sender =
  url :: string
  num_packets :: int
  concurrency :: int
  http_method :: string
  data :: "string option"
  headers :: "(string \<times> string) list"
  sent_packets :: int
  success_packets :: int
  failed_packets :: int
  start_time :: "rat option"
  end_time :: "rat option"

text \<open>\<^verbatim>\<open>str.upper\<close> on ASCII text: the letters a to z move to A to Z.\<close>

definition upper_char :: "char \<Rightarrow> char" where
  "upper_char c =
     (let k = (of_char c :: nat)
      in if 97 \<le> k \<and> k \<le> 122 then char_of (k - 32) else c)"

definition upper :: "string \<Rightarrow> string" where
  "upper s = map upper_char s"

definition default_headers :: "(string \<times> string) list" where
  "default_headers = [(''User-Agent'', ''StressTest/1.0'')]"

text \<open>\<^verbatim>\<open>headers or {...}\<close>: both \<^verbatim>\<open>None\<close> and the empty dict are falsy.\<close>

definition PacketSender_init ::
  "string \<Rightarrow> int \<Rightarrow> int \<Rightarrow> string \<Rightarrow> string option \<Rightarrow> (string \<times> string) list option \<Rightarrow> sender"
where
  "PacketSender_init u n c m d h =
     \<lparr> url = u, num_packets = n, concurrency = c, http_method = upper m, data = d,
       headers = (case h of None \<Rightarrow> default_headers
                  | Some hs \<Rightarrow> if hs = [] then default_headers else hs),
       sent_packets = 0, success_packets = 0, failed_packets = 0,
       start_time = None, end_time = None \<rparr>"

section \<open>One attempt\<close>

text \<open>
  \<^verbatim>\<open>try: body except Exception: return handler\<close>. An exception that is an instance
  of \<^verbatim>\<open>Exception\<close> is replaced by the handler's value; any other propagates.
\<close>

definition except_Exception :: "py_exc + py_value \<Rightarrow> py_value \<Rightarrow> py_exc + py_value" where
  "except_Exception body handler =
     (case body of
        Inl e \<Rightarrow> if is_Exception e then Inr handler else Inl e
      | Inr v \<Rightarrow> Inr v)"

definition get_request :: "sender \<Rightarrow> request" where
  "get_request s =
     \<lparr> rq_verb = GET, rq_url = url s, rq_data = None, rq_headers = headers s, rq_timeout = 5 \<rparr>"

definition post_request :: "sender \<Rightarrow> request" where
  "post_request s =
     \<lparr> rq_verb = POST, rq_url = url s, rq_data = data s, rq_headers = headers s, rq_timeout = 5 \<rparr>"

text \<open>
  \<^verbatim>\<open>send_single_packet\<close>: with a method that is neither GET nor POST the name
  \<^verbatim>\<open>response\<close> is never bound, and reading it raises \<^verbatim>\<open>UnboundLocalError\<close>
  inside the \<^verbatim>\<open>try\<close>.
\<close>

definition send_single_packet :: "sender \<Rightarrow> capability \<Rightarrow> py_exc + py_value" where
  "send_single_packet s cap =
     except_Exception
       (case (if http_method s = ''GET'' then http_call cap (get_request s)
              else if http_method s = ''POST'' then http_call cap (post_request s)
              else Inl UnboundLocalError) of
          Inl e \<Rightarrow> Inl e
        | Inr status_code \<Rightarrow>
            if status_code < 400 then Inr (PyBool True) else Inr (PyBool False))
       (PyBool False)"

text \<open>
  \<^verbatim>\<open>send_single_packet_async\<close>: each branch returns \<^verbatim>\<open>response.status < 400\<close>;
  there is no \<^verbatim>\<open>else\<close>, so any other method falls off the end and returns
  \<^verbatim>\<open>None\<close>.
\<close>

definition send_single_packet_async :: "sender \<Rightarrow> capability \<Rightarrow> py_exc + py_value" where
  "send_single_packet_async s cap =
     except_Exception
       (if http_method s = ''GET'' then
          (case http_call cap (get_request s) of
             Inl e \<Rightarrow> Inl e
           | Inr status \<Rightarrow> Inr (PyBool (status < 400)))
        else if http_method s = ''POST'' then
          (case http_call cap (post_request s) of
             Inl e \<Rightarrow> Inl e
           | Inr status \<Rightarrow> Inr (PyBool (status < 400)))
        else Inr PyNone)
       (PyBool False)"

section \<open>Arithmetic and iteration of the interpreter\<close>

text \<open>
  True division \<^verbatim>\<open>a / b\<close> raises \<^verbatim>\<open>ZeroDivisionError\<close> on a zero divisor.
  Floating-point results are idealised as rationals.
\<close>

definition py_truediv :: "rat \<Rightarrow> rat \<Rightarrow> py_exc + rat" where
  "py_truediv a b = (if b = 0 then Inl ZeroDivisionError else Inr (a / b))"

text \<open>
  \<^verbatim>\<open>range(start, stop, step)\<close>: a zero step raises \<^verbatim>\<open>ValueError\<close>, a positive
  step counts up while below \<^verbatim>\<open>stop\<close>, a negative step counts down while above it.
\<close>

function range_up :: "int \<Rightarrow> int \<Rightarrow> int \<Rightarrow> int list" where
  "range_up i stop step =
     (if 0 < step \<and> i < stop then i # range_up (i + step) stop step else [])"
  by pat_completeness auto
termination
  by (relation "measure (\<lambda>(i, stop, step). nat (stop - i))") auto

function range_down :: "int \<Rightarrow> int \<Rightarrow> int \<Rightarrow> int list" where
  "range_down i stop step =
     (if step < 0 \<and> stop < i then i # range_down (i + step) stop step else [])"
  by pat_completeness auto
termination
  by (relation "measure (\<lambda>(i, stop, step). nat (i - stop))") auto

declare range_up.simps [simp del]
declare range_down.simps [simp del]

definition py_range :: "int \<Rightarrow> int \<Rightarrow> int \<Rightarrow> py_exc + int list" where
  "py_range start stop step =
     (if step = 0 then Inl ValueError
      else if 0 < step then Inr (range_up start stop step)
      else Inr (range_down start stop step))"

section \<open>The batched dispatch\<close>

text \<open>
  The network as the dispatch sees it: the capability that serves task \<open>j\<close> of the
  batch starting at offset \<open>i\<close>.
\<close>

type_synonym network = "int \<Rightarrow> nat \<Rightarrow> capability"

text \<open>\<^verbatim>\<open>[self.send_single_packet_async(session) for _ in range(current_batch)]\<close>\<close>

definition batch_tasks :: "sender \<Rightarrow> (nat \<Rightarrow> capability) \<Rightarrow> int \<Rightarrow> (py_exc + py_value) list" where
  "batch_tasks s caps current_batch =
     map (\<lambda>j. send_single_packet_async s (caps j)) [0..<nat current_batch]"

text \<open>
  \<^verbatim>\<open>asyncio.gather(*tasks, return_exceptions=True)\<close>: one result per task, in task
  order; a task that raised contributes its exception object.
\<close>

definition gather :: "(py_exc + py_value) list \<Rightarrow> py_value list" where
  "gather tasks = map (\<lambda>t. case t of Inl e \<Rightarrow> PyExcObj e | Inr v \<Rightarrow> v) tasks"

definition count_true :: "py_value list \<Rightarrow> int" where
  "count_true results = int (length (filter (\<lambda>r. r = PyBool True) results))"

definition count_not_true :: "py_value list \<Rightarrow> int" where
  "count_not_true results = int (length (filter (\<lambda>r. r \<noteq> PyBool True) results))"

definition fold_results :: "sender \<Rightarrow> int \<Rightarrow> py_value list \<Rightarrow> sender" where
  "fold_results s current_batch results =
     s\<lparr> sent_packets := sent_packets s + current_batch,
        success_packets := success_packets s + count_true results,
        failed_packets := failed_packets s + count_not_true results \<rparr>"

definition current_batch_of :: "sender \<Rightarrow> int \<Rightarrow> int \<Rightarrow> int" where
  "current_batch_of s batch_size i = min batch_size (num_packets s - i)"

text \<open>
  One iteration of the loop body. The progress line divides \<^verbatim>\<open>sent_packets\<close> by
  \<^verbatim>\<open>num_packets\<close>; the counters are already updated when it is printed.
\<close>

definition batch_step :: "network \<Rightarrow> int \<Rightarrow> int \<Rightarrow> sender \<Rightarrow> sender \<times> py_exc option" where
  "batch_step net batch_size i s =
     (let current_batch = current_batch_of s batch_size i;
          results = gather (batch_tasks s (net i) current_batch);
          s' = fold_results s current_batch results
      in case py_truediv (of_int (sent_packets s')) (of_int (num_packets s')) of
           Inl e \<Rightarrow> (s', Some e)
         | Inr progress \<Rightarrow> (s', None))"

fun for_batches :: "network \<Rightarrow> int \<Rightarrow> int list \<Rightarrow> sender \<Rightarrow> sender \<times> py_exc option" where
  "for_batches net batch_size [] s = (s, None)"
| "for_batches net batch_size (i # rest) s =
     (case batch_step net batch_size i s of
        (s', Some e) \<Rightarrow> (s', Some e)
      | (s', None) \<Rightarrow> for_batches net batch_size rest s')"

section \<open>Reporting\<close>

record stats_report =
  rp_url :: string
  rp_sent :: int
  rp_success :: int
  rp_success_pct :: rat
  rp_failed :: int
  rp_failed_pct :: rat
  rp_duration :: rat
  rp_packets_per_second :: rat

definition packets_per_second :: "int \<Rightarrow> rat \<Rightarrow> py_exc + rat" where
  "packets_per_second sent duration =
     (if duration > 0 then py_truediv (of_int sent) duration else Inr 0)"

text \<open>
  \<^verbatim>\<open>print_stats\<close>: the value is what the lines print; an exception raised while a
  line is formatted ends the report.
\<close>

definition print_stats :: "sender \<Rightarrow> py_exc + stats_report" where
  "print_stats s =
     (case (start_time s, end_time s) of
        (Some t0, Some t1) \<Rightarrow>
          (let duration = t1 - t0 in
           case packets_per_second (sent_packets s) duration of
             Inl e \<Rightarrow> Inl e
           | Inr pps \<Rightarrow>
               (case py_truediv (of_int (success_packets s)) (of_int (sent_packets s)) of
                  Inl e \<Rightarrow> Inl e
                | Inr sr \<Rightarrow>
                    (case py_truediv (of_int (failed_packets s)) (of_int (sent_packets s)) of
                       Inl e \<Rightarrow> Inl e
                     | Inr fr \<Rightarrow>
                         Inr \<lparr> rp_url = url s, rp_sent = sent_packets s,
                               rp_success = success_packets s, rp_success_pct = sr * 100,
                               rp_failed = failed_packets s, rp_failed_pct = fr * 100,
                               rp_duration = duration, rp_packets_per_second = pps \<rparr>)))
      | _ \<Rightarrow> Inl TypeError)"

section \<open>The run\<close>

text \<open>
  \<^verbatim>\<open>send_batch_async\<close>. The two readings of \<^verbatim>\<open>time.time()\<close> are given as
  \<open>clock\<close>. The sender is mutated in place, so its final state is returned also when
  the call ends with an exception.
\<close>

definition send_batch_async ::
  "rat \<times> rat \<Rightarrow> network \<Rightarrow> sender \<Rightarrow> int \<Rightarrow> sender \<times> (py_exc + stats_report)"
where
  "send_batch_async clock net s batch_size =
     (let s0 = s\<lparr> start_time := Some (fst clock) \<rparr> in
      case py_range 0 (num_packets s0) batch_size of
        Inl e \<Rightarrow> (s0, Inl e)
      | Inr offsets \<Rightarrow>
          (case for_batches net batch_size offsets s0 of
             (s1, Some e) \<Rightarrow> (s1, Inl e)
           | (s1, None) \<Rightarrow>
               (let s2 = s1\<lparr> end_time := Some (snd clock) \<rparr> in (s2, print_stats s2))))"

text \<open>
  \<^verbatim>\<open>main\<close>, after the command line is read into integers and strings. The parser
  accepts exactly the method spellings in \<^verbatim>\<open>choices=["GET", "POST"]\<close> and exits
  otherwise; no other argument is checked. The concurrency is handed to the connector of
  the HTTP client as it is (\<^verbatim>\<open>aiohttp.TCPConnector(limit=...)\<close>, which documents a
  limit of 0 as no limit and raises for no value); what the connector then admits is
  outside the program.
\<close>

record cli_args =
  arg_url :: string
  arg_num_packets :: int
  arg_concurrency :: int
  arg_method :: string
  arg_data :: "string option"
  arg_batch_size :: int

datatype main_result = UsageError | Ran sender "py_exc + stats_report"

definition main :: "rat \<times> rat \<Rightarrow> network \<Rightarrow> cli_args \<Rightarrow> main_result" where
  "main clock net a =
     (if arg_method a \<notin> set [''GET'', ''POST''] then UsageError
      else
        (case send_batch_async clock net
                (PacketSender_init (arg_url a) (arg_num_packets a) (arg_concurrency a)
                   (arg_method a) (arg_data a) None)
                (arg_batch_size a) of
           (s, r) \<Rightarrow> Ran s r))"

section \<open>Observations on the loop\<close>

text \<open>
  The sizes of the batches the loop header and \<^verbatim>\<open>min(batch_size, num_packets - i)\<close>
  produce, in order.
\<close>

definition batch_plan :: "sender \<Rightarrow> int \<Rightarrow> py_exc + int list" where
  "batch_plan s batch_size =
     (case py_range 0 (num_packets s) batch_size of
        Inl e \<Rightarrow> Inl e
      | Inr offsets \<Rightarrow> Inr (map (current_batch_of s batch_size) offsets))"

text \<open>The results \<^verbatim>\<open>gather\<close> returns for the batch at offset \<open>i\<close>.\<close>

definition batch_results :: "network \<Rightarrow> int \<Rightarrow> int \<Rightarrow> sender \<Rightarrow> py_value list" where
  "batch_results net batch_size i s =
     gather (batch_tasks s (net i) (current_batch_of s batch_size i))"

text \<open>The sender after the first \<open>k\<close> iterations of the loop.\<close>

definition loop_state :: "network \<Rightarrow> int \<Rightarrow> sender \<Rightarrow> nat \<Rightarrow> sender" where
  "loop_state net batch_size s k =
     (case py_range 0 (num_packets s) batch_size of
        Inl e \<Rightarrow> s
      | Inr offsets \<Rightarrow> fst (for_batches net batch_size (take k offsets) s))"

section \<open>Spellings of a method name\<close>

text \<open>
  A lowercase or mixed-case spelling of an uppercase word: every character is the
  word's letter or its lowercase form.
\<close>

definition ascii_lower_char :: "char \<Rightarrow> char" where
  "ascii_lower_char c =
     (let k = (of_char c :: nat)
      in if 65 \<le> k \<and> k \<le> 90 then char_of (k + 32) else c)"

definition case_spelling_of :: "string \<Rightarrow> string \<Rightarrow> bool" where
  "case_spelling_of word m = list_all2 (\<lambda>w c. c = w \<or> c = ascii_lower_char w) word m"

section \<open>Stand-ins for the network\<close>

text \<open>
  Fixed behaviours of the HTTP capability, used to run the dispatch on concrete inputs:
  every request answered with status 200; status 200 and 500 alternating by task index;
  and one batch meeting a 200, a 500, a timeout and a cancellation in turn.
\<close>

definition always_200 :: network where
  "always_200 i j rq = Response 200"

definition alternating :: network where
  "alternating i j rq = (if even j then Response 200 else Response 500)"

definition mixed_replies :: network where
  "mixed_replies i j rq =
     (if j = 0 then Response 200
      else if j = 1 then Response 500
      else if j = 2 then Raises TimeoutError
      else Raises CancelledError)"

section \<open>The constructor\<close>

lemma init_fields:
  "num_packets (PacketSender_init u n c m d h) = n"
  "sent_packets (PacketSender_init u n c m d h) = 0"
  "success_packets (PacketSender_init u n c m d h) = 0"
  "failed_packets (PacketSender_init u n c m d h) = 0"
  "http_method (PacketSender_init u n c m d h) = upper m"
  by (simp_all add: PacketSender_init_def)

section \<open>The loop header\<close>

lemma range_up_Nil: "\<not> i < n \<Longrightarrow> range_up i n b = []"
  by (simp add: range_up.simps)

lemma range_up_Cons: "0 < b \<Longrightarrow> i < n \<Longrightarrow> range_up i n b = i # range_up (i + b) n b"
  by (subst range_up.simps) simp

lemma sum_range_up:
  "0 < b \<Longrightarrow> sum_list (map (\<lambda>x. min b (n - x)) (range_up i n b)) = max 0 (n - i)"
proof (induction i n b rule: range_up.induct)
  case (1 i stop step)
  show ?case
  proof (cases "i < stop")
    case True
    with 1 show ?thesis by (simp add: range_up_Cons)
  next
    case False
    then show ?thesis by (simp add: range_up_Nil)
  qed
qed

lemma length_range_up:
  "0 < b \<Longrightarrow> int (length (range_up i n b)) = max 0 (- ((i - n) div b))"
proof (induction i n b rule: range_up.induct)
  case (1 i stop step)
  show ?case
  proof (cases "i < stop")
    case True
    have "(i + step - stop) div step = (i - stop) div step + 1"
    proof -
      have "step \<noteq> 0" using 1(2) by simp
      have "(i + step - stop) div step = ((i - stop) + step) div step"
        by (simp add: algebra_simps)
      also have "\<dots> = (i - stop) div step + 1"
        by (rule div_add_self2) fact
      finally show ?thesis .
    qed
    moreover have "(i - stop) div step < 0" using True 1(2)
      by (simp add: div_neg_pos_less0)
    ultimately show ?thesis using 1 True by (simp add: range_up_Cons)
  next
    case False
    then have "0 \<le> (i - stop) div step" using 1(2) by (simp add: pos_imp_zdiv_nonneg_iff)
    then show ?thesis using False by (simp add: range_up_Nil)
  qed
qed

lemma nth_range_up:
  "0 < b \<Longrightarrow> k < length (range_up i n b) \<Longrightarrow> range_up i n b ! k = i + int k * b"
proof (induction i n b arbitrary: k rule: range_up.induct)
  case (1 i stop step)
  show ?case
  proof (cases "i < stop")
    case True
    show ?thesis
    proof (cases k)
      case 0
      then show ?thesis using True 1(2) by (simp add: range_up_Cons)
    next
      case (Suc m)
      then have "m < length (range_up (i + step) stop step)"
        using 1(3) True 1(2) by (simp add: range_up_Cons)
      then have "range_up (i + step) stop step ! m = i + step + int m * step"
        using 1(1)[of m] True 1(2) by simp
      then show ?thesis using Suc True 1(2) by (simp add: range_up_Cons algebra_simps)
    qed
  next
    case False
    then show ?thesis using 1(3) by (simp add: range_up_Nil)
  qed
qed

lemma range_up_bounds: "0 < b \<Longrightarrow> x \<in> set (range_up i n b) \<Longrightarrow> i \<le> x \<and> x < n"
proof (induction i n b rule: range_up.induct)
  case (1 i stop step)
  show ?case
  proof (cases "i < stop")
    case True
    then show ?thesis using 1 by (auto simp: range_up_Cons)
  next
    case False
    then show ?thesis using 1(3) by (simp add: range_up_Nil)
  qed
qed

lemma ceil_div: "0 < b \<Longrightarrow> \<lceil>of_int n / (of_int b :: rat)\<rceil> = - ((- n) div b)"
  by (simp add: ceiling_divide_eq_div)

lemma batch_plan_valid:
  "0 < b \<Longrightarrow> batch_plan s b = Inr (map (\<lambda>i. min b (num_packets s - i)) (range_up 0 (num_packets s) b))"
  by (simp add: batch_plan_def py_range_def current_batch_of_def)

lemma length_plan:
  assumes "0 \<le> n" "0 < b"
  shows "int (length (range_up 0 n b)) = \<lceil>of_int n / (of_int b :: rat)\<rceil>"
proof -
  have "(- n) div b \<le> 0" using assms by (simp add: div_nonpos_pos_le0)
  then show ?thesis using assms length_range_up[of b 0 n] by (simp add: ceiling_divide_eq_div)
qed

lemma full_batches:
  assumes "0 < b" "Suc k < length (range_up 0 n b)"
  shows "min b (n - range_up 0 n b ! k) = b"
proof -
  have "range_up 0 n b ! Suc k = int (Suc k) * b"
    using nth_range_up[OF assms] by simp
  moreover have "range_up 0 n b ! Suc k < n"
    using range_up_bounds[OF assms(1), of "range_up 0 n b ! Suc k" 0 n] assms(2) by simp
  moreover have "range_up 0 n b ! k = int k * b"
    using nth_range_up[OF assms(1), of k 0 n] assms(2) by simp
  ultimately show ?thesis by (simp add: algebra_simps)
qed

lemma last_batch:
  assumes "0 \<le> n" "0 < b" "range_up 0 n b \<noteq> []"
  shows "min b (n - last (range_up 0 n b)) = n - b * (int (length (range_up 0 n b)) - 1)"
proof -
  let ?xs = "range_up 0 n b"
  have len: "int (length ?xs) = - ((- n) div b)"
    using length_plan[OF assms(1,2)] assms(2) by (simp add: ceiling_divide_eq_div)
  have "b * ((- n) div b) \<le> - n" using assms(2) by (simp add: pos_mod_sign minus_mod_eq_mult_div [symmetric])
  then have le: "n \<le> b * int (length ?xs)" using len by simp
  have "last ?xs = ?xs ! (length ?xs - 1)" using assms(3) by (simp add: last_conv_nth)
  also have "\<dots> = int (length ?xs - 1) * b"
    using nth_range_up[OF assms(2), of "length ?xs - 1" 0 n] assms(3) by simp
  also have "\<dots> = (int (length ?xs) - 1) * b"
    using assms(3) by (cases ?xs) simp_all
  finally have "last ?xs = (int (length ?xs) - 1) * b" .
  then show ?thesis using le by (simp add: algebra_simps)
qed

text \<open>
  C2: for a non-negative total and a positive batch size the loop cuts the total into
  consecutive batches: their number is the ceiling of total / batch_size, every batch
  but the last has size batch_size, the last has size
  total - batch_size * (count - 1), which is min(batch_size, remaining), and the sizes
  add up to the total.
\<close>

theorem batch_partition:
  assumes "0 \<le> num_packets s" and "0 < b"
  shows "\<exists>sizes. batch_plan s b = Inr sizes \<and>
           int (length sizes) = \<lceil>of_int (num_packets s) / (of_int b :: rat)\<rceil> \<and>
           (\<forall>k. Suc k < length sizes \<longrightarrow> sizes ! k = b) \<and>
           (sizes \<noteq> [] \<longrightarrow>
              last sizes = num_packets s - b * (int (length sizes) - 1) \<and>
              last sizes = min b (num_packets s - sum_list (butlast sizes))) \<and>
           sum_list sizes = num_packets s"
proof -
  let ?n = "num_packets s"
  let ?offs = "range_up 0 ?n b"
  let ?f = "\<lambda>i. min b (?n - i)"
  let ?sizes = "map ?f ?offs"
  have plan: "batch_plan s b = Inr ?sizes" by (rule batch_plan_valid) fact
  have len: "int (length ?sizes) = \<lceil>of_int ?n / (of_int b :: rat)\<rceil>"
    using length_plan[OF assms] by simp
  have full: "\<forall>k. Suc k < length ?sizes \<longrightarrow> ?sizes ! k = b"
    using full_batches[OF assms(2), of _ ?n] by simp
  have total: "sum_list ?sizes = ?n"
    using sum_range_up[OF assms(2), of ?n 0] assms(1) by simp
  have lst: "last ?sizes = ?n - b * (int (length ?sizes) - 1)" if ne: "?sizes \<noteq> []"
  proof -
    have "last ?sizes = ?f (last ?offs)" using ne by (simp add: last_map)
    then show ?thesis using last_batch[OF assms] ne by simp
  qed
  have rem: "last ?sizes = min b (?n - sum_list (butlast ?sizes))" if ne: "?sizes \<noteq> []"
  proof -
    have "sum_list (butlast ?sizes) + last ?sizes = sum_list ?sizes"
      using ne by (metis append_butlast_last_id sum_list.Cons sum_list.Nil sum_list_append add.right_neutral)
    then have "?n - sum_list (butlast ?sizes) = last ?sizes" using total by simp
    moreover have "last ?sizes \<le> b"
    proof -
      have "last ?sizes = ?f (last ?offs)" using ne by (simp add: last_map)
      then show ?thesis by simp
    qed
    ultimately show ?thesis by simp
  qed
  show ?thesis using plan len full total lst rem by blast
qed

theorem batch_partition_witness:
  "0 \<le> num_packets (PacketSender_init ''http://target'' 25 5 ''GET'' None None) \<and> (0::int) < 10 \<and>
   (\<exists>sizes. batch_plan (PacketSender_init ''http://target'' 25 5 ''GET'' None None) 10 = Inr sizes \<and>
      int (length sizes) = 3 \<and> sizes ! 0 = 10 \<and> sizes ! 1 = 10 \<and> last sizes = 5 \<and> sum_list sizes = 25)"
proof -
  let ?s = "PacketSender_init ''http://target'' 25 5 ''GET'' None None"
  have h1: "0 \<le> num_packets ?s" by (simp add: init_fields)
  have h2: "(0::int) < 10" by simp
  obtain sizes where plan: "batch_plan ?s 10 = Inr sizes"
    and len: "int (length sizes) = \<lceil>of_int (num_packets ?s) / (of_int 10 :: rat)\<rceil>"
    and full: "\<forall>k. Suc k < length sizes \<longrightarrow> sizes ! k = 10"
    and lst: "sizes \<noteq> [] \<longrightarrow> last sizes = num_packets ?s - 10 * (int (length sizes) - 1) \<and>
              last sizes = min 10 (num_packets ?s - sum_list (butlast sizes))"
    and total: "sum_list sizes = num_packets ?s"
    using batch_partition[OF h1 h2] by blast
  have "\<lceil>of_int 25 / (of_int 10 :: rat)\<rceil> = 3"
    by (simp only: ceiling_divide_eq_div)
  then have "int (length sizes) = 3" using len by (simp only: init_fields)
  then have l3: "length sizes = 3" by simp
  then have "sizes ! 0 = 10" "sizes ! 1 = 10" using full by simp_all
  moreover have "last sizes = 5" using lst l3 by (auto simp: init_fields)
  ultimately show ?thesis using h1 plan l3 total by (simp add: init_fields)
qed

section \<open>The loop body and the counters\<close>

lemma length_gather: "length (gather tasks) = length tasks"
  by (simp add: gather_def)

lemma length_batch_tasks: "length (batch_tasks s caps cb) = nat cb"
  by (simp add: batch_tasks_def)

lemma count_split: "count_true rs + count_not_true rs = int (length rs)"
  unfolding count_true_def count_not_true_def
  using sum_length_filter_compl[of "\<lambda>r. r = PyBool True" rs] by simp

lemma count_true_nonneg: "0 \<le> count_true rs"
  by (simp add: count_true_def)

lemma count_not_true_nonneg: "0 \<le> count_not_true rs"
  by (simp add: count_not_true_def)

lemma fold_results_fields:
  "sent_packets (fold_results s cb rs) = sent_packets s + cb"
  "success_packets (fold_results s cb rs) = success_packets s + count_true rs"
  "failed_packets (fold_results s cb rs) = failed_packets s + count_not_true rs"
  "num_packets (fold_results s cb rs) = num_packets s"
  "start_time (fold_results s cb rs) = start_time s"
  "end_time (fold_results s cb rs) = end_time s"
  "url (fold_results s cb rs) = url s"
  "http_method (fold_results s cb rs) = http_method s"
  by (simp_all add: fold_results_def)

lemma length_batch_results:
  "length (batch_results net b i s) = nat (current_batch_of s b i)"
  by (simp add: batch_results_def length_gather length_batch_tasks)

lemma fst_batch_step:
  "fst (batch_step net b i s) = fold_results s (current_batch_of s b i) (batch_results net b i s)"
  by (simp add: batch_step_def batch_results_def Let_def split: sum.splits)

lemma snd_batch_step:
  "snd (batch_step net b i s) = (if num_packets s = 0 then Some ZeroDivisionError else None)"
  by (simp add: batch_step_def Let_def py_truediv_def fold_results_fields)

lemma batch_step_ok:
  "num_packets s \<noteq> 0 \<Longrightarrow>
   batch_step net b i s =
     (fold_results s (current_batch_of s b i) (batch_results net b i s), None)"
  using fst_batch_step[of net b i s] snd_batch_step[of net b i s]
  by (simp add: prod_eq_iff)

lemma for_batches_append:
  "for_batches net b (xs @ ys) s =
     (case for_batches net b xs s of
        (s', Some e) \<Rightarrow> (s', Some e)
      | (s', None) \<Rightarrow> for_batches net b ys s')"
  by (induction xs arbitrary: s) (auto split: prod.splits option.splits)

lemma for_batches_ok:
  "num_packets s \<noteq> 0 \<Longrightarrow> snd (for_batches net b offs s) = None"
proof (induction offs arbitrary: s)
  case Nil
  then show ?case by simp
next
  case (Cons i rest)
  have "num_packets (fold_results s (current_batch_of s b i) (batch_results net b i s)) \<noteq> 0"
    using Cons.prems by (simp add: fold_results_fields)
  then show ?case using Cons.prems Cons.IH by (simp add: batch_step_ok)
qed

lemma for_batches_num_packets:
  "num_packets (fst (for_batches net b offs s)) = num_packets s"
proof (induction offs arbitrary: s)
  case Nil
  then show ?case by simp
next
  case (Cons i rest)
  obtain s' r where step: "batch_step net b i s = (s', r)" by (cases "batch_step net b i s")
  then have "num_packets s' = num_packets s"
    using fst_batch_step[of net b i s] by (simp add: fold_results_fields)
  then show ?case using step Cons.IH[of s'] by (cases r) simp_all
qed

lemma for_batches_snoc:
  assumes "num_packets s \<noteq> 0"
  shows "fst (for_batches net b (xs @ [i]) s) =
           (let sk = fst (for_batches net b xs s)
            in fold_results sk (current_batch_of sk b i) (batch_results net b i sk))"
proof -
  obtain sk r where run: "for_batches net b xs s = (sk, r)" by (cases "for_batches net b xs s")
  have "r = None" using for_batches_ok[OF assms, of net b xs] run by simp
  moreover have "num_packets sk \<noteq> 0"
    using for_batches_num_packets[of net b xs s] run assms by simp
  ultimately show ?thesis using run
    by (simp add: for_batches_append batch_step_ok)
qed

lemma for_batches_sent:
  "num_packets s \<noteq> 0 \<Longrightarrow>
   sent_packets (fst (for_batches net b offs s)) =
     sent_packets s + sum_list (map (current_batch_of s b) offs)"
proof (induction offs arbitrary: s)
  case Nil
  then show ?case by simp
next
  case (Cons i rest)
  let ?s' = "fold_results s (current_batch_of s b i) (batch_results net b i s)"
  have np: "num_packets ?s' = num_packets s" by (simp add: fold_results_fields)
  then have same: "current_batch_of ?s' b = current_batch_of s b"
    by (simp add: current_batch_of_def fun_eq_iff)
  have "sent_packets (fst (for_batches net b rest ?s')) =
          sent_packets ?s' + sum_list (map (current_batch_of ?s' b) rest)"
    using Cons.IH[of ?s'] Cons.prems np by simp
  then show ?case using Cons.prems same by (simp add: batch_step_ok fold_results_fields)
qed

lemma for_batches_outcomes:
  "num_packets s \<noteq> 0 \<Longrightarrow>
   success_packets (fst (for_batches net b offs s)) + failed_packets (fst (for_batches net b offs s)) =
     success_packets s + failed_packets s
       + sum_list (map (\<lambda>i. int (nat (current_batch_of s b i))) offs)"
proof (induction offs arbitrary: s)
  case Nil
  then show ?case by simp
next
  case (Cons i rest)
  let ?s' = "fold_results s (current_batch_of s b i) (batch_results net b i s)"
  have np: "num_packets ?s' = num_packets s" by (simp add: fold_results_fields)
  then have same: "current_batch_of ?s' b = current_batch_of s b"
    by (simp add: current_batch_of_def fun_eq_iff)
  have here: "success_packets ?s' + failed_packets ?s' =
                success_packets s + failed_packets s + int (nat (current_batch_of s b i))"
    using count_split[of "batch_results net b i s"]
    by (simp add: fold_results_fields length_batch_results)
  have "success_packets (fst (for_batches net b rest ?s')) + failed_packets (fst (for_batches net b rest ?s')) =
          success_packets ?s' + failed_packets ?s'
            + sum_list (map (\<lambda>i. int (nat (current_batch_of ?s' b i))) rest)"
    using Cons.IH[of ?s'] Cons.prems np by simp
  then show ?case using Cons.prems same here by (simp add: batch_step_ok)
qed

lemma positive_batches:
  assumes "0 < b" "i \<in> set (range_up 0 (num_packets s) b)"
  shows "0 < current_batch_of s b i"
  using range_up_bounds[OF assms] assms(1) by (simp add: current_batch_of_def)

lemma range_up_nonempty: "0 < b \<Longrightarrow> range_up 0 n b \<noteq> [] \<Longrightarrow> 0 < n"
  by (metis range_up_Nil)

lemma for_batches_start_time:
  "start_time (fst (for_batches net b offs s)) = start_time s"
proof (induction offs arbitrary: s)
  case Nil
  then show ?case by simp
next
  case (Cons i rest)
  obtain s' r where step: "batch_step net b i s = (s', r)" by (cases "batch_step net b i s")
  then have "start_time s' = start_time s"
    using fst_batch_step[of net b i s] by (simp add: fold_results_fields)
  then show ?case using step Cons.IH[of s'] by (cases r) simp_all
qed

lemma send_batch_async_valid:
  assumes "0 < b"
  shows "send_batch_async clock net s b =
     (case for_batches net b (range_up 0 (num_packets s) b) (s\<lparr>start_time := Some (fst clock)\<rparr>) of
        (s1, Some e) \<Rightarrow> (s1, Inl e)
      | (s1, None) \<Rightarrow> (s1\<lparr>end_time := Some (snd clock)\<rparr>, print_stats (s1\<lparr>end_time := Some (snd clock)\<rparr>)))"
  using assms by (simp add: send_batch_async_def py_range_def Let_def)

lemma print_stats_ok:
  assumes "start_time s = Some t0" "end_time s = Some t1" "sent_packets s \<noteq> 0"
  shows "\<exists>report. print_stats s = Inr report"
  using assms by (simp add: print_stats_def packets_per_second_def py_truediv_def Let_def)

lemma print_stats_zero_sent:
  assumes "start_time s = Some t0" "end_time s = Some t1" "sent_packets s = 0"
  shows "print_stats s = Inl ZeroDivisionError"
  using assms by (simp add: print_stats_def packets_per_second_def py_truediv_def Let_def)

lemma sizes_nat:
  assumes "0 < b"
  shows "map (\<lambda>i. int (nat (current_batch_of s b i))) (range_up 0 (num_packets s) b) =
         map (current_batch_of s b) (range_up 0 (num_packets s) b)"
  using positive_batches[OF assms, of _ s] by (simp add: less_imp_le)

lemma sum_sizes:
  assumes "0 \<le> num_packets s" "0 < b"
  shows "sum_list (map (current_batch_of s b) (range_up 0 (num_packets s) b)) = num_packets s"
proof -
  have "current_batch_of s b = (\<lambda>x. min b (num_packets s - x))"
    by (simp add: current_batch_of_def fun_eq_iff)
  then show ?thesis using sum_range_up[OF assms(2), of "num_packets s" 0] assms(1) by simp
qed

lemma loop_counters:
  assumes "0 \<le> num_packets s" "0 < b"
  shows "sent_packets (fst (for_batches net b (range_up 0 (num_packets s) b) s)) =
           sent_packets s + num_packets s"
    and "success_packets (fst (for_batches net b (range_up 0 (num_packets s) b) s))
           + failed_packets (fst (for_batches net b (range_up 0 (num_packets s) b) s)) =
           success_packets s + failed_packets s + num_packets s"
    and "snd (for_batches net b (range_up 0 (num_packets s) b) s) = None"
proof -
  let ?offs = "range_up 0 (num_packets s) b"
  show "sent_packets (fst (for_batches net b ?offs s)) = sent_packets s + num_packets s"
  proof (cases "num_packets s = 0")
    case True
    then show ?thesis by (simp add: range_up_Nil)
  next
    case False
    then show ?thesis using for_batches_sent[of s net b ?offs] sum_sizes[OF assms] by simp
  qed
  show "success_packets (fst (for_batches net b ?offs s)) + failed_packets (fst (for_batches net b ?offs s)) =
          success_packets s + failed_packets s + num_packets s"
  proof (cases "num_packets s = 0")
    case True
    then show ?thesis by (simp add: range_up_Nil)
  next
    case False
    have "success_packets (fst (for_batches net b ?offs s)) + failed_packets (fst (for_batches net b ?offs s)) =
            success_packets s + failed_packets s
              + sum_list (map (\<lambda>i. int (nat (current_batch_of s b i))) ?offs)"
      using False by (rule for_batches_outcomes)
    also have "map (\<lambda>i. int (nat (current_batch_of s b i))) ?offs = map (current_batch_of s b) ?offs"
      by (rule sizes_nat) fact
    also have "sum_list (map (current_batch_of s b) ?offs) = num_packets s"
      by (rule sum_sizes) fact+
    finally show ?thesis .
  qed
  show "snd (for_batches net b ?offs s) = None"
  proof (cases "num_packets s = 0")
    case True
    then show ?thesis by (simp add: range_up_Nil)
  next
    case False
    then show ?thesis by (rule for_batches_ok)
  qed
qed

text \<open>
  C1: for a non-negative total and a positive batch size, after \<^verbatim>\<open>send_batch_async\<close>
  on a fresh sender the counters satisfy sent = success + failed = num_packets; with a
  positive total the call returns its report.
\<close>

theorem dispatch_counters:
  assumes "0 \<le> n" and "0 < b"
  shows "sent_packets (fst (send_batch_async clock net (PacketSender_init u n c m d h) b)) = n \<and>
         success_packets (fst (send_batch_async clock net (PacketSender_init u n c m d h) b))
           + failed_packets (fst (send_batch_async clock net (PacketSender_init u n c m d h) b)) = n \<and>
         (0 < n \<longrightarrow> (\<exists>report. snd (send_batch_async clock net (PacketSender_init u n c m d h) b) = Inr report))"
proof -
  let ?s0 = "(PacketSender_init u n c m d h)\<lparr>start_time := Some (fst clock)\<rparr>"
  let ?run = "for_batches net b (range_up 0 n b) ?s0"
  have n0: "num_packets ?s0 = n" by (simp add: init_fields)
  have valid: "0 \<le> num_packets ?s0" using assms(1) n0 by simp
  obtain s1 r where run: "?run = (s1, r)" by (cases ?run)
  have r: "r = None" using loop_counters(3)[OF valid assms(2), of net] run n0 by simp
  have sent: "sent_packets s1 = n"
    using loop_counters(1)[OF valid assms(2), of net] run n0 by (simp add: init_fields)
  have outc: "success_packets s1 + failed_packets s1 = n"
    using loop_counters(2)[OF valid assms(2), of net] run n0 by (simp add: init_fields)
  have st: "start_time s1 = Some (fst clock)"
    using for_batches_start_time[of net b "range_up 0 n b" ?s0] run by simp
  let ?s2 = "s1\<lparr>end_time := Some (snd clock)\<rparr>"
  have final: "send_batch_async clock net (PacketSender_init u n c m d h) b = (?s2, print_stats ?s2)"
    using send_batch_async_valid[OF assms(2), of clock net "PacketSender_init u n c m d h"] run r
    by (simp add: init_fields)
  have "\<exists>report. print_stats ?s2 = Inr report" if "0 < n"
    using print_stats_ok[of ?s2 "fst clock" "snd clock"] st sent that by simp
  then show ?thesis using final sent outc by simp
qed

theorem dispatch_counters_witness:
  "(0::int) \<le> 25 \<and> (0::int) < 10 \<and>
   sent_packets (fst (send_batch_async (0, 2) always_200
      (PacketSender_init ''http://target'' 25 5 ''GET'' None None) 10)) = 25 \<and>
   success_packets (fst (send_batch_async (0, 2) always_200
      (PacketSender_init ''http://target'' 25 5 ''GET'' None None) 10))
   + failed_packets (fst (send_batch_async (0, 2) always_200
      (PacketSender_init ''http://target'' 25 5 ''GET'' None None) 10)) = 25 \<and>
   (\<exists>report. snd (send_batch_async (0, 2) always_200
      (PacketSender_init ''http://target'' 25 5 ''GET'' None None) 10) = Inr report)"
proof -
  have h1: "(0::int) \<le> 25" and h2: "(0::int) < 10" by simp_all
  show ?thesis
    using dispatch_counters[OF h1 h2, of "(0, 2)" always_200 "''http://target''" 5 "''GET''" None None]
    by simp
qed

section \<open>The counters after every fold\<close>

lemma loop_state_valid:
  "0 < b \<Longrightarrow> loop_state net b s k = fst (for_batches net b (take k (range_up 0 (num_packets s) b)) s)"
  by (simp add: loop_state_def py_range_def)

lemma loop_state_num_packets:
  "0 < b \<Longrightarrow> num_packets (loop_state net b s k) = num_packets s"
  by (simp add: loop_state_valid for_batches_num_packets)

lemma loop_state_Suc:
  assumes "0 < b" "k < length (range_up 0 (num_packets s) b)"
  shows "loop_state net b s (Suc k) =
           fold_results (loop_state net b s k)
             (current_batch_of s b (range_up 0 (num_packets s) b ! k))
             (batch_results net b (range_up 0 (num_packets s) b ! k) (loop_state net b s k))"
proof -
  let ?offs = "range_up 0 (num_packets s) b"
  have "?offs \<noteq> []" using assms(2) by auto
  then have nz: "num_packets s \<noteq> 0" using range_up_nonempty[OF assms(1)] by fastforce
  have same: "current_batch_of (loop_state net b s k) b = current_batch_of s b"
    using loop_state_num_packets[OF assms(1), of net s k]
    by (simp add: current_batch_of_def fun_eq_iff)
  have "take (Suc k) ?offs = take k ?offs @ [?offs ! k]"
    using assms(2) by (rule take_Suc_conv_app_nth)
  then have "loop_state net b s (Suc k) =
               fst (for_batches net b (take k ?offs @ [?offs ! k]) s)"
    using assms(1) by (simp only: loop_state_valid)
  also have "\<dots> = (let sk = fst (for_batches net b (take k ?offs) s)
                    in fold_results sk (current_batch_of sk b (?offs ! k)) (batch_results net b (?offs ! k) sk))"
    using nz by (rule for_batches_snoc)
  also have "\<dots> = fold_results (loop_state net b s k) (current_batch_of s b (?offs ! k))
                     (batch_results net b (?offs ! k) (loop_state net b s k))"
    using same assms(1) by (simp add: Let_def loop_state_valid)
  finally show ?thesis .
qed

lemma loop_state_step:
  assumes "0 < b" "k < length (range_up 0 (num_packets s) b)"
  defines "cb \<equiv> current_batch_of s b (range_up 0 (num_packets s) b ! k)"
  shows "sent_packets (loop_state net b s (Suc k)) = sent_packets (loop_state net b s k) + cb"
    and "success_packets (loop_state net b s (Suc k)) + failed_packets (loop_state net b s (Suc k)) =
           success_packets (loop_state net b s k) + failed_packets (loop_state net b s k) + cb"
    and "success_packets (loop_state net b s k) \<le> success_packets (loop_state net b s (Suc k))"
    and "failed_packets (loop_state net b s k) \<le> failed_packets (loop_state net b s (Suc k))"
    and "0 < cb"
proof -
  let ?offs = "range_up 0 (num_packets s) b"
  let ?sk = "loop_state net b s k"
  let ?rs = "batch_results net b (?offs ! k) ?sk"
  have step: "loop_state net b s (Suc k) = fold_results ?sk cb ?rs"
    unfolding cb_def using assms(1,2) by (rule loop_state_Suc)
  show pos: "0 < cb" unfolding cb_def using assms(1,2) by (simp add: positive_batches)
  have "current_batch_of ?sk b = current_batch_of s b"
    using loop_state_num_packets[OF assms(1), of net s k]
    by (simp add: current_batch_of_def fun_eq_iff)
  then have "length ?rs = nat cb" by (simp add: length_batch_results cb_def)
  then have "count_true ?rs + count_not_true ?rs = cb"
    using count_split[of ?rs] pos by simp
  then show "success_packets (loop_state net b s (Suc k)) + failed_packets (loop_state net b s (Suc k)) =
           success_packets ?sk + failed_packets ?sk + cb"
    using step by (simp add: fold_results_fields)
  show "sent_packets (loop_state net b s (Suc k)) = sent_packets ?sk + cb"
    using step by (simp add: fold_results_fields)
  show "success_packets ?sk \<le> success_packets (loop_state net b s (Suc k))"
    using step count_true_nonneg[of ?rs] by (simp add: fold_results_fields)
  show "failed_packets ?sk \<le> failed_packets (loop_state net b s (Suc k))"
    using step count_not_true_nonneg[of ?rs] by (simp add: fold_results_fields)
qed

lemma loop_state_invariant:
  assumes "0 < b" "sent_packets s = success_packets s + failed_packets s"
  shows "k \<le> length (range_up 0 (num_packets s) b) \<Longrightarrow>
         sent_packets (loop_state net b s k) =
           success_packets (loop_state net b s k) + failed_packets (loop_state net b s k)"
proof (induction k)
  case 0
  then show ?case using assms by (simp add: loop_state_valid)
next
  case (Suc k)
  then have lt: "k < length (range_up 0 (num_packets s) b)" by simp
  show ?case
    using loop_state_step(1,2)[OF assms(1) lt, of net] Suc.IH lt by simp
qed

lemma send_batch_async_final_state:
  assumes "0 \<le> num_packets s" "0 < b"
  shows "fst (send_batch_async clock net s b) =
           (loop_state net b (s\<lparr>start_time := Some (fst clock)\<rparr>)
              (length (range_up 0 (num_packets s) b)))\<lparr>end_time := Some (snd clock)\<rparr>"
proof -
  let ?s0 = "s\<lparr>start_time := Some (fst clock)\<rparr>"
  let ?run = "for_batches net b (range_up 0 (num_packets s) b) ?s0"
  have "0 \<le> num_packets ?s0" using assms(1) by simp
  then have "snd (for_batches net b (range_up 0 (num_packets ?s0) b) ?s0) = None"
    using assms(2) by (rule loop_counters(3))
  then have "snd ?run = None" by simp
  then obtain s1 where run: "?run = (s1, None)" by (cases ?run) simp
  then show ?thesis
    using send_batch_async_valid[OF assms(2), of clock net s]
    by (simp add: loop_state_valid[OF assms(2)])
qed

text \<open>
  C5: for a non-negative total and a positive batch size, starting from a sender whose
  counters satisfy sent = success + failed, the equation holds after every fold of the
  loop (after 0, 1, ..., all batches); fold number k adds exactly the size of batch k
  to sent and to success + failed, and none of the three counters ever decreases.
\<close>

theorem fold_invariant:
  assumes "0 \<le> num_packets s" and "0 < b"
    and "sent_packets s = success_packets s + failed_packets s"
  shows "\<exists>sizes. batch_plan s b = Inr sizes \<and>
           (\<forall>k. k \<le> length sizes \<longrightarrow>
              sent_packets (loop_state net b s k) =
                success_packets (loop_state net b s k) + failed_packets (loop_state net b s k)) \<and>
           (\<forall>k. k < length sizes \<longrightarrow>
              sent_packets (loop_state net b s (Suc k)) = sent_packets (loop_state net b s k) + sizes ! k \<and>
              success_packets (loop_state net b s (Suc k)) + failed_packets (loop_state net b s (Suc k)) =
                success_packets (loop_state net b s k) + failed_packets (loop_state net b s k) + sizes ! k \<and>
              sent_packets (loop_state net b s k) \<le> sent_packets (loop_state net b s (Suc k)) \<and>
              success_packets (loop_state net b s k) \<le> success_packets (loop_state net b s (Suc k)) \<and>
              failed_packets (loop_state net b s k) \<le> failed_packets (loop_state net b s (Suc k)))"
proof -
  let ?offs = "range_up 0 (num_packets s) b"
  let ?sizes = "map (current_batch_of s b) ?offs"
  have "current_batch_of s b = (\<lambda>i. min b (num_packets s - i))"
    by (simp add: current_batch_of_def fun_eq_iff)
  then have plan: "batch_plan s b = Inr ?sizes"
    using batch_plan_valid[OF assms(2), of s] by simp
  have inv: "\<forall>k. k \<le> length ?sizes \<longrightarrow>
              sent_packets (loop_state net b s k) =
                success_packets (loop_state net b s k) + failed_packets (loop_state net b s k)"
    using loop_state_invariant[OF assms(2,3), of _ net] by simp
  have step: "\<forall>k. k < length ?sizes \<longrightarrow>
              sent_packets (loop_state net b s (Suc k)) = sent_packets (loop_state net b s k) + ?sizes ! k \<and>
              success_packets (loop_state net b s (Suc k)) + failed_packets (loop_state net b s (Suc k)) =
                success_packets (loop_state net b s k) + failed_packets (loop_state net b s k) + ?sizes ! k \<and>
              sent_packets (loop_state net b s k) \<le> sent_packets (loop_state net b s (Suc k)) \<and>
              success_packets (loop_state net b s k) \<le> success_packets (loop_state net b s (Suc k)) \<and>
              failed_packets (loop_state net b s k) \<le> failed_packets (loop_state net b s (Suc k))"
  proof (intro allI impI)
    fix k assume "k < length ?sizes"
    then have lt: "k < length ?offs" by simp
    note st = loop_state_step[OF assms(2) lt]
    have nth: "?sizes ! k = current_batch_of s b (?offs ! k)" using lt by simp
    show "sent_packets (loop_state net b s (Suc k)) = sent_packets (loop_state net b s k) + ?sizes ! k \<and>
              success_packets (loop_state net b s (Suc k)) + failed_packets (loop_state net b s (Suc k)) =
                success_packets (loop_state net b s k) + failed_packets (loop_state net b s k) + ?sizes ! k \<and>
              sent_packets (loop_state net b s k) \<le> sent_packets (loop_state net b s (Suc k)) \<and>
              success_packets (loop_state net b s k) \<le> success_packets (loop_state net b s (Suc k)) \<and>
              failed_packets (loop_state net b s k) \<le> failed_packets (loop_state net b s (Suc k))"
      using st nth by simp
  qed
  show ?thesis using plan inv step by blast
qed

theorem fold_invariant_witness:
  "0 \<le> num_packets (PacketSender_init ''http://target'' 25 5 ''GET'' None None) \<and> (0::int) < 10 \<and>
   sent_packets (PacketSender_init ''http://target'' 25 5 ''GET'' None None) =
     success_packets (PacketSender_init ''http://target'' 25 5 ''GET'' None None)
       + failed_packets (PacketSender_init ''http://target'' 25 5 ''GET'' None None) \<and>
   batch_plan (PacketSender_init ''http://target'' 25 5 ''GET'' None None) 10 = Inr [10, 10, 5] \<and>
   sent_packets (loop_state alternating 10 (PacketSender_init ''http://target'' 25 5 ''GET'' None None) 1) = 10 \<and>
   sent_packets (loop_state alternating 10 (PacketSender_init ''http://target'' 25 5 ''GET'' None None) 2) = 20 \<and>
   sent_packets (loop_state alternating 10 (PacketSender_init ''http://target'' 25 5 ''GET'' None None) 3) = 25 \<and>
   success_packets (loop_state alternating 10 (PacketSender_init ''http://target'' 25 5 ''GET'' None None) 3)
     + failed_packets (loop_state alternating 10 (PacketSender_init ''http://target'' 25 5 ''GET'' None None) 3) = 25"
proof -
  let ?s = "PacketSender_init ''http://target'' 25 5 ''GET'' None None"
  have h1: "0 \<le> num_packets ?s" by (simp add: init_fields)
  have h2: "(0::int) < 10" by simp
  have h3: "sent_packets ?s = success_packets ?s + failed_packets ?s" by (simp add: init_fields)
  have plan: "batch_plan ?s 10 = Inr [10, 10, 5]" by code_simp
  have s0: "sent_packets (loop_state alternating 10 ?s 0) = 0" by code_simp
  obtain sizes where p: "batch_plan ?s 10 = Inr sizes"
    and inv: "\<forall>k. k \<le> length sizes \<longrightarrow>
              sent_packets (loop_state alternating 10 ?s k) =
                success_packets (loop_state alternating 10 ?s k) + failed_packets (loop_state alternating 10 ?s k)"
    and step: "\<forall>k. k < length sizes \<longrightarrow>
              sent_packets (loop_state alternating 10 ?s (Suc k)) =
                sent_packets (loop_state alternating 10 ?s k) + sizes ! k"
    using fold_invariant[OF h1 h2 h3, of alternating] by blast
  have sz: "sizes = [10, 10, 5]" using p plan by simp
  have a1: "sent_packets (loop_state alternating 10 ?s 1) = 10"
    using step[rule_format, of 0] sz s0 by simp
  have a2: "sent_packets (loop_state alternating 10 ?s 2) = 20"
    using step[rule_format, of 1] sz a1 by (simp add: eval_nat_numeral)
  have a3: "sent_packets (loop_state alternating 10 ?s 3) = 25"
    using step[rule_format, of 2] sz a2 by (simp add: eval_nat_numeral)
  have a4: "success_packets (loop_state alternating 10 ?s 3) + failed_packets (loop_state alternating 10 ?s 3) = 25"
    using inv[rule_format, of 3] sz a3 by (simp add: eval_nat_numeral)
  show ?thesis using h1 h2 h3 plan a1 a2 a3 a4 by (simp only: simp_thms)
qed

section \<open>What the fold counts as a failure\<close>

lemma non_true_values:
  "r \<noteq> PyBool True \<longleftrightarrow> r = PyBool False \<or> r = PyNone \<or> (\<exists>e. r = PyExcObj e)"
  by (cases r) auto

lemma async_unsupported_method:
  "http_method s \<noteq> ''GET'' \<Longrightarrow> http_method s \<noteq> ''POST'' \<Longrightarrow>
   send_single_packet_async s cap = Inr PyNone"
  by (simp add: send_single_packet_async_def except_Exception_def)

text \<open>
  C9: the fold counts as a success exactly the results that are the boolean True and as
  a failure every other result (False, None, an exception object collected by gather),
  so for every batch of non-negative size the success and failure increments add up to
  the batch size, whatever the attempts return.
\<close>

theorem fold_counts_non_true_as_failure:
  assumes "0 \<le> current_batch_of s b i"
  shows "success_packets (fst (batch_step net b i s)) =
           success_packets s + int (length (filter (\<lambda>r. r = PyBool True) (batch_results net b i s))) \<and>
         failed_packets (fst (batch_step net b i s)) =
           failed_packets s + int (length (filter (\<lambda>r. r \<noteq> PyBool True) (batch_results net b i s))) \<and>
         (success_packets (fst (batch_step net b i s)) - success_packets s)
           + (failed_packets (fst (batch_step net b i s)) - failed_packets s) = current_batch_of s b i \<and>
         (\<forall>cb rs. (success_packets (fold_results s cb rs) - success_packets s)
                    + (failed_packets (fold_results s cb rs) - failed_packets s) = int (length rs))"
proof -
  let ?rs = "batch_results net b i s"
  have st: "fst (batch_step net b i s) = fold_results s (current_batch_of s b i) ?rs"
    by (rule fst_batch_step)
  have "count_true ?rs + count_not_true ?rs = int (length ?rs)" by (rule count_split)
  also have "\<dots> = current_batch_of s b i" using assms by (simp add: length_batch_results)
  finally have sum: "count_true ?rs + count_not_true ?rs = current_batch_of s b i" .
  have any: "(success_packets (fold_results s cb rs) - success_packets s)
               + (failed_packets (fold_results s cb rs) - failed_packets s) = int (length rs)" for cb rs
    using count_split[of rs] by (simp add: fold_results_fields)
  show ?thesis
    using st sum any by (simp add: fold_results_fields count_true_def count_not_true_def)
qed

theorem fold_counts_non_true_as_failure_witness:
  "0 \<le> current_batch_of (PacketSender_init ''http://target'' 3 5 ''PUT'' None None) 5 0 \<and>
   batch_results always_200 5 0 (PacketSender_init ''http://target'' 3 5 ''PUT'' None None) =
     [PyNone, PyNone, PyNone] \<and>
   success_packets (fst (batch_step always_200 5 0
      (PacketSender_init ''http://target'' 3 5 ''PUT'' None None))) = 0 \<and>
   failed_packets (fst (batch_step always_200 5 0
      (PacketSender_init ''http://target'' 3 5 ''PUT'' None None))) = 3 \<and>
   0 \<le> current_batch_of (PacketSender_init ''http://target'' 4 5 ''GET'' None None) 4 0 \<and>
   batch_results mixed_replies 4 0 (PacketSender_init ''http://target'' 4 5 ''GET'' None None) =
     [PyBool True, PyBool False, PyBool False, PyExcObj CancelledError] \<and>
   success_packets (fst (batch_step mixed_replies 4 0
      (PacketSender_init ''http://target'' 4 5 ''GET'' None None))) = 1 \<and>
   failed_packets (fst (batch_step mixed_replies 4 0
      (PacketSender_init ''http://target'' 4 5 ''GET'' None None))) = 3"
proof -
  let ?p = "PacketSender_init ''http://target'' 3 5 ''PUT'' None None"
  let ?g = "PacketSender_init ''http://target'' 4 5 ''GET'' None None"
  have hp: "0 \<le> current_batch_of ?p 5 0" by code_simp
  have hg: "0 \<le> current_batch_of ?g 4 0" by code_simp
  have rp: "batch_results always_200 5 0 ?p = [PyNone, PyNone, PyNone]" by code_simp
  have rg: "batch_results mixed_replies 4 0 ?g =
              [PyBool True, PyBool False, PyBool False, PyExcObj CancelledError]" by code_simp
  note tp = fold_counts_non_true_as_failure[OF hp, of always_200]
  note tg = fold_counts_non_true_as_failure[OF hg, of mixed_replies]
  have p1: "success_packets (fst (batch_step always_200 5 0 ?p)) = 0"
    using tp rp by (simp add: init_fields)
  have p2: "failed_packets (fst (batch_step always_200 5 0 ?p)) = 3"
    using tp rp by (simp add: init_fields)
  have g1: "success_packets (fst (batch_step mixed_replies 4 0 ?g)) = 1"
    using tg rg by (simp add: init_fields)
  have g2: "failed_packets (fst (batch_step mixed_replies 4 0 ?g)) = 3"
    using tg rg by (simp add: init_fields)
  show ?thesis using hp hg rp rg p1 p2 g1 g2 by (simp only: simp_thms)
qed

section \<open>The final report\<close>

lemma packets_per_second_total:
  "packets_per_second sent duration = Inr (if 0 < duration then of_int sent / duration else 0)"
  by (simp add: packets_per_second_def py_truediv_def)

text \<open>
  C7: the throughput is sent / (end_time - start_time) when that duration is positive
  and 0 otherwise; computing it never raises, also for a zero or negative duration, and
  this is the value the report carries.
\<close>

theorem throughput_guard:
  assumes "start_time s = Some t0" and "end_time s = Some t1"
  shows "packets_per_second (sent_packets s) (t1 - t0) =
           Inr (if 0 < t1 - t0 then of_int (sent_packets s) / (t1 - t0) else 0) \<and>
         (\<forall>report. print_stats s = Inr report \<longrightarrow>
            rp_duration report = t1 - t0 \<and>
            rp_packets_per_second report =
              (if 0 < t1 - t0 then of_int (sent_packets s) / (t1 - t0) else 0)) \<and>
         (sent_packets s \<noteq> 0 \<longrightarrow> (\<exists>report. print_stats s = Inr report))"
proof -
  have pps: "packets_per_second (sent_packets s) (t1 - t0) =
           Inr (if 0 < t1 - t0 then of_int (sent_packets s) / (t1 - t0) else 0)"
    by (rule packets_per_second_total)
  have rep: "rp_duration report = t1 - t0 \<and>
            rp_packets_per_second report =
              (if 0 < t1 - t0 then of_int (sent_packets s) / (t1 - t0) else 0)"
    if "print_stats s = Inr report" for report
    using that assms pps
    by (auto simp: print_stats_def Let_def split: sum.splits)
  have "\<exists>report. print_stats s = Inr report" if "sent_packets s \<noteq> 0"
    using assms that by (rule print_stats_ok)
  then show ?thesis using pps rep by blast
qed

theorem throughput_guard_witness:
  "start_time (fst (send_batch_async (7, 7) always_200
      (PacketSender_init ''http://target'' 10 5 ''GET'' None None) 5)) = Some 7 \<and>
   end_time (fst (send_batch_async (7, 7) always_200
      (PacketSender_init ''http://target'' 10 5 ''GET'' None None) 5)) = Some 7 \<and>
   (\<exists>report. print_stats (fst (send_batch_async (7, 7) always_200
      (PacketSender_init ''http://target'' 10 5 ''GET'' None None) 5)) = Inr report \<and>
      rp_duration report = 0 \<and> rp_packets_per_second report = 0) \<and>
   start_time (fst (send_batch_async (3, 7) always_200
      (PacketSender_init ''http://target'' 10 5 ''GET'' None None) 5)) = Some 3 \<and>
   end_time (fst (send_batch_async (3, 7) always_200
      (PacketSender_init ''http://target'' 10 5 ''GET'' None None) 5)) = Some 7 \<and>
   (\<exists>report. print_stats (fst (send_batch_async (3, 7) always_200
      (PacketSender_init ''http://target'' 10 5 ''GET'' None None) 5)) = Inr report \<and>
      rp_duration report = 4 \<and> rp_packets_per_second report = 5 / 2)"
proof -
  let ?a = "fst (send_batch_async (7, 7) always_200
      (PacketSender_init ''http://target'' 10 5 ''GET'' None None) 5)"
  let ?b = "fst (send_batch_async (3, 7) always_200
      (PacketSender_init ''http://target'' 10 5 ''GET'' None None) 5)"
  have a: "start_time ?a = Some 7" "end_time ?a = Some 7" "sent_packets ?a = 10" by code_simp+
  have b: "start_time ?b = Some 3" "end_time ?b = Some 7" "sent_packets ?b = 10" by code_simp+
  note ta = throughput_guard[OF a(1,2)]
  note tb = throughput_guard[OF b(1,2)]
  have ra: "\<exists>report. print_stats ?a = Inr report \<and>
      rp_duration report = 0 \<and> rp_packets_per_second report = 0"
  proof -
    from ta a(3) obtain report where r: "print_stats ?a = Inr report" by auto
    with ta have "rp_duration report = 0 \<and> rp_packets_per_second report = 0" by simp
    with r show ?thesis by blast
  qed
  have rb: "\<exists>report. print_stats ?b = Inr report \<and>
      rp_duration report = 4 \<and> rp_packets_per_second report = 5 / 2"
  proof -
    from tb b(3) obtain report where r: "print_stats ?b = Inr report" by auto
    with tb a b have "rp_duration report = 4 \<and> rp_packets_per_second report = 5 / 2" by simp
    with r show ?thesis by blast
  qed
  show ?thesis using a(1,2) b(1,2) ra rb by (simp only: simp_thms)
qed

lemma zero_total_always_faults:
  assumes "0 < b"
  shows "snd (send_batch_async clock net (PacketSender_init u 0 c m d h) b) = Inl ZeroDivisionError"
proof -
  let ?s0 = "(PacketSender_init u 0 c m d h)\<lparr>start_time := Some (fst clock)\<rparr>"
  have "send_batch_async clock net (PacketSender_init u 0 c m d h) b =
          (?s0\<lparr>end_time := Some (snd clock)\<rparr>, print_stats (?s0\<lparr>end_time := Some (snd clock)\<rparr>))"
    using send_batch_async_valid[OF assms, of clock net "PacketSender_init u 0 c m d h"]
    by (simp add: init_fields range_up_Nil)
  moreover have "print_stats (?s0\<lparr>end_time := Some (snd clock)\<rparr>) = Inl ZeroDivisionError"
    by (rule print_stats_zero_sent[of _ "fst clock" "snd clock"]) (simp_all add: init_fields)
  ultimately show ?thesis by simp
qed

text \<open>
  C3: with a total of 0 no batch runs and the counters stay 0, but the report does not
  complete: after the throughput is guarded to 0, the success percentage divides by
  \<^verbatim>\<open>sent_packets = 0\<close> and \<^verbatim>\<open>print_stats\<close> ends with \<^verbatim>\<open>ZeroDivisionError\<close>.
\<close>

theorem zero_total_report_faults:
  "send_batch_async (0, 1) always_200
     (PacketSender_init ''http://target'' 0 100 ''GET'' None None) 10000 =
   (\<lparr>url = ''http://target'', num_packets = 0, concurrency = 100, http_method = ''GET'',
      data = None, headers = [(''User-Agent'', ''StressTest/1.0'')], sent_packets = 0,
      success_packets = 0, failed_packets = 0, start_time = Some 0, end_time = Some 1\<rparr>,
    Inl ZeroDivisionError)"
  by code_simp

section \<open>The outcome of one attempt\<close>

text \<open>
  With a capability that only raises instances of \<^verbatim>\<open>Exception\<close> (transport errors,
  timeouts), the synchronous attempt always returns a boolean, for every method; the
  asynchronous attempt does so for the methods GET and POST.
\<close>

lemma send_single_packet_classifies:
  assumes "\<forall>rq e. cap rq = Raises e \<longrightarrow> is_Exception e"
  shows "send_single_packet s cap =
           Inr (PyBool ((http_method s = ''GET'' \<and> (\<exists>st. cap (get_request s) = Response st \<and> st < 400)) \<or>
                        (http_method s \<noteq> ''GET'' \<and> http_method s = ''POST'' \<and>
                           (\<exists>st. cap (post_request s) = Response st \<and> st < 400))))"
  using assms
  by (auto simp: send_single_packet_def except_Exception_def split: http_reply.splits)

lemma send_single_packet_async_classifies:
  assumes "\<forall>rq e. cap rq = Raises e \<longrightarrow> is_Exception e"
    and "http_method s = ''GET'' \<or> http_method s = ''POST''"
  shows "send_single_packet_async s cap =
           Inr (PyBool ((http_method s = ''GET'' \<and> (\<exists>st. cap (get_request s) = Response st \<and> st < 400)) \<or>
                        (http_method s \<noteq> ''GET'' \<and> http_method s = ''POST'' \<and>
                           (\<exists>st. cap (post_request s) = Response st \<and> st < 400))))"
  using assms
  by (auto simp: send_single_packet_async_def except_Exception_def split: http_reply.splits)

text \<open>
  With a method other than GET and POST, which the command line never passes on, the
  asynchronous attempt makes no request and returns \<^verbatim>\<open>None\<close>, where the
  synchronous attempt returns \<^verbatim>\<open>False\<close>; the fold counts both as failures.
\<close>

lemma async_attempt_unsupported_method_returns_None:
  "send_single_packet_async (PacketSender_init ''http://target'' 10 5 ''PUT'' None None)
     (always_200 0 0) = Inr PyNone \<and>
   send_single_packet (PacketSender_init ''http://target'' 10 5 ''PUT'' None None)
     (always_200 0 0) = Inr (PyBool False)"
  by code_simp

text \<open>
  C4: for a request with method GET or POST, and whatever the HTTP capability does
  (any status code, any transport error or timeout, which are instances of
  \<^verbatim>\<open>Exception\<close>), neither attempt raises: each returns a boolean, which is True
  exactly when a response with a status code below 400 was received and False in every
  other case.
\<close>

theorem attempt_classifies:
  assumes "http_method s = ''GET'' \<or> http_method s = ''POST''"
    and "\<forall>rq e. cap rq = Raises e \<longrightarrow> is_Exception e"
  shows "send_single_packet s cap =
           Inr (PyBool (\<exists>st. cap (if http_method s = ''GET'' then get_request s else post_request s)
                               = Response st \<and> st < 400)) \<and>
         send_single_packet_async s cap =
           Inr (PyBool (\<exists>st. cap (if http_method s = ''GET'' then get_request s else post_request s)
                               = Response st \<and> st < 400))"
proof -
  let ?ok = "\<exists>st. cap (if http_method s = ''GET'' then get_request s else post_request s)
                    = Response st \<and> st < 400"
  have same: "((http_method s = ''GET'' \<and> (\<exists>st. cap (get_request s) = Response st \<and> st < 400)) \<or>
               (http_method s \<noteq> ''GET'' \<and> http_method s = ''POST'' \<and>
                  (\<exists>st. cap (post_request s) = Response st \<and> st < 400))) = ?ok"
    using assms(1) by auto
  have "send_single_packet s cap = Inr (PyBool ?ok)"
    using send_single_packet_classifies[OF assms(2), of s] same by simp
  moreover have "send_single_packet_async s cap = Inr (PyBool ?ok)"
    using send_single_packet_async_classifies[OF assms(2,1)] same by simp
  ultimately show ?thesis by simp
qed

theorem attempt_classifies_witness:
  "send_single_packet (PacketSender_init ''http://target'' 10 5 ''GET'' None None) (mixed_replies 0 0)
     = Inr (PyBool True) \<and>
   send_single_packet_async (PacketSender_init ''http://target'' 10 5 ''GET'' None None) (mixed_replies 0 0)
     = Inr (PyBool True) \<and>
   send_single_packet (PacketSender_init ''http://target'' 10 5 ''POST'' (Some ''x=1'') None) (mixed_replies 0 1)
     = Inr (PyBool False) \<and>
   send_single_packet_async (PacketSender_init ''http://target'' 10 5 ''POST'' (Some ''x=1'') None) (mixed_replies 0 1)
     = Inr (PyBool False) \<and>
   send_single_packet (PacketSender_init ''http://target'' 10 5 ''GET'' None None) (mixed_replies 0 2)
     = Inr (PyBool False) \<and>
   send_single_packet_async (PacketSender_init ''http://target'' 10 5 ''GET'' None None) (mixed_replies 0 2)
     = Inr (PyBool False)"
proof -
  let ?g = "PacketSender_init ''http://target'' 10 5 ''GET'' None None"
  let ?p = "PacketSender_init ''http://target'' 10 5 ''POST'' (Some ''x=1'') None"
  have mg: "http_method ?g = ''GET'' \<or> http_method ?g = ''POST''"
    by code_simp
  have mp: "http_method ?p = ''GET'' \<or> http_method ?p = ''POST''"
    by code_simp
  have e0: "\<forall>rq e. mixed_replies 0 0 rq = Raises e \<longrightarrow> is_Exception e"
    by (simp add: mixed_replies_def)
  have e1: "\<forall>rq e. mixed_replies 0 1 rq = Raises e \<longrightarrow> is_Exception e"
    by (simp add: mixed_replies_def)
  have e2: "\<forall>rq e. mixed_replies 0 2 rq = Raises e \<longrightarrow> is_Exception e"
    by (simp add: mixed_replies_def)
  have r0: "(\<exists>st. mixed_replies 0 0 (if http_method ?g = ''GET'' then get_request ?g else post_request ?g)
               = Response st \<and> st < 400) = True"
    by (simp add: mixed_replies_def)
  have r1: "(\<exists>st. mixed_replies 0 1 (if http_method ?p = ''GET'' then get_request ?p else post_request ?p)
               = Response st \<and> st < 400) = False"
    by (simp add: mixed_replies_def)
  have r2: "(\<exists>st. mixed_replies 0 2 (if http_method ?g = ''GET'' then get_request ?g else post_request ?g)
               = Response st \<and> st < 400) = False"
    by (simp add: mixed_replies_def)
  note t0 = attempt_classifies[OF mg e0]
  note t1 = attempt_classifies[OF mp e1]
  note t2 = attempt_classifies[OF mg e2]
  show ?thesis
    using t0 t1 t2 by (simp only: r0 r1 r2 simp_thms)
qed

section \<open>The spelling of the method\<close>

lemma lower_letters:
  "ascii_lower_char CHR ''G'' = CHR ''g''"
  "ascii_lower_char CHR ''E'' = CHR ''e''"
  "ascii_lower_char CHR ''T'' = CHR ''t''"
  "ascii_lower_char CHR ''P'' = CHR ''p''"
  "ascii_lower_char CHR ''O'' = CHR ''o''"
  "ascii_lower_char CHR ''S'' = CHR ''s''"
  by code_simp+

lemma upper_letters:
  "upper_char CHR ''g'' = CHR ''G''" "upper_char CHR ''G'' = CHR ''G''"
  "upper_char CHR ''e'' = CHR ''E''" "upper_char CHR ''E'' = CHR ''E''"
  "upper_char CHR ''t'' = CHR ''T''" "upper_char CHR ''T'' = CHR ''T''"
  "upper_char CHR ''p'' = CHR ''P''" "upper_char CHR ''P'' = CHR ''P''"
  "upper_char CHR ''o'' = CHR ''O''" "upper_char CHR ''O'' = CHR ''O''"
  "upper_char CHR ''s'' = CHR ''S''" "upper_char CHR ''S'' = CHR ''S''"
  by code_simp+

lemma upper_get: "case_spelling_of ''GET'' m \<Longrightarrow> upper m = ''GET''"
  by (auto simp: case_spelling_of_def list_all2_Cons1 upper_def lower_letters upper_letters)

lemma upper_post: "case_spelling_of ''POST'' m \<Longrightarrow> upper m = ''POST''"
  by (auto simp: case_spelling_of_def list_all2_Cons1 upper_def lower_letters upper_letters)

lemma init_cong: "upper m = upper m' \<Longrightarrow> PacketSender_init u n c m d h = PacketSender_init u n c m' d h"
  by (simp add: PacketSender_init_def)

lemma upper_GET: "upper ''GET'' = ''GET''" and upper_POST: "upper ''POST'' = ''POST''"
  by (simp_all add: upper_def upper_letters)

text \<open>
  C10: the constructor stores \<^verbatim>\<open>method.upper()\<close>, so a sender built from any
  lowercase or mixed-case spelling of GET or POST is the same object as the one built
  from the uppercase spelling, and every operation on it gives the same result.
\<close>

theorem method_case_insensitive:
  assumes "w = ''GET'' \<or> w = ''POST''" and "case_spelling_of w m"
  shows "PacketSender_init u n c m d h = PacketSender_init u n c w d h \<and>
         http_method (PacketSender_init u n c m d h) = w \<and>
         send_single_packet (PacketSender_init u n c m d h) cap =
           send_single_packet (PacketSender_init u n c w d h) cap \<and>
         send_single_packet_async (PacketSender_init u n c m d h) cap =
           send_single_packet_async (PacketSender_init u n c w d h) cap \<and>
         send_batch_async clock net (PacketSender_init u n c m d h) b =
           send_batch_async clock net (PacketSender_init u n c w d h) b"
proof -
  have up: "upper m = w \<and> upper w = w"
    using assms upper_get upper_post upper_GET upper_POST by auto
  then have eq: "PacketSender_init u n c m d h = PacketSender_init u n c w d h"
    by (simp add: init_cong)
  have "http_method (PacketSender_init u n c m d h) = w" using up by (simp add: init_fields)
  then show ?thesis using eq by simp
qed

theorem method_case_insensitive_witness:
  "case_spelling_of ''GET'' ''gEt'' \<and> case_spelling_of ''POST'' ''post'' \<and>
   PacketSender_init ''http://target'' 10 5 ''gEt'' None None =
     PacketSender_init ''http://target'' 10 5 ''GET'' None None \<and>
   http_method (PacketSender_init ''http://target'' 10 5 ''post'' (Some ''x=1'') None) = ''POST'' \<and>
   send_single_packet_async (PacketSender_init ''http://target'' 10 5 ''post'' (Some ''x=1'') None)
       (always_200 0 0) = Inr (PyBool True)"
proof -
  have g: "case_spelling_of ''GET'' ''gEt''"
    by (simp add: case_spelling_of_def lower_letters)
  have p: "case_spelling_of ''POST'' ''post''"
    by (simp add: case_spelling_of_def lower_letters)
  have run: "send_single_packet_async (PacketSender_init ''http://target'' 10 5 ''POST'' (Some ''x=1'') None)
       (always_200 0 0) = Inr (PyBool True)"
    by code_simp
  have w1: "''GET'' = ''GET'' \<or> ''GET'' = ''POST''" by simp
  have w2: "''POST'' = ''GET'' \<or> ''POST'' = ''POST''" by simp
  have e1: "PacketSender_init ''http://target'' 10 5 ''gEt'' None None =
              PacketSender_init ''http://target'' 10 5 ''GET'' None None"
    using method_case_insensitive[OF w1 g] by (rule conjunct1)
  have e2: "PacketSender_init ''http://target'' 10 5 ''post'' (Some ''x=1'') None =
              PacketSender_init ''http://target'' 10 5 ''POST'' (Some ''x=1'') None"
    using method_case_insensitive[OF w2 p] by (rule conjunct1)
  have m2: "http_method (PacketSender_init ''http://target'' 10 5 ''POST'' (Some ''x=1'') None) = ''POST''"
    by (simp add: init_fields upper_POST)
  show ?thesis using g p e1 e2 m2 run by (simp only: simp_thms)
qed

section \<open>What is checked before the run\<close>

lemma no_tasks_nonpositive_batch:
  "b \<le> 0 \<Longrightarrow> batch_tasks s caps (current_batch_of s b i) = []"
  by (simp add: batch_tasks_def current_batch_of_def)

lemma no_results_nonpositive_batch:
  "b \<le> 0 \<Longrightarrow> batch_results net b i s = []"
  by (simp add: batch_results_def no_tasks_nonpositive_batch gather_def)

lemma for_batches_no_attempts:
  "b \<le> 0 \<Longrightarrow>
   success_packets (fst (for_batches net b offs s)) = success_packets s \<and>
   failed_packets (fst (for_batches net b offs s)) = failed_packets s"
proof (induction offs arbitrary: s)
  case Nil
  then show ?case by simp
next
  case (Cons i rest)
  obtain s' r where step: "batch_step net b i s = (s', r)" by (cases "batch_step net b i s")
  then have "s' = fold_results s (current_batch_of s b i) (batch_results net b i s)"
    using fst_batch_step[of net b i s] by simp
  then have same: "success_packets s' = success_packets s \<and> failed_packets s' = failed_packets s"
    using Cons.prems
    by (simp add: fold_results_fields no_results_nonpositive_batch count_true_def count_not_true_def)
  show ?case
  proof (cases r)
    case None
    then show ?thesis using step same Cons.IH[OF Cons.prems, of s'] by simp
  next
    case (Some e)
    then show ?thesis using step same by simp
  qed
qed

lemma send_batch_async_no_attempts:
  assumes "b \<le> 0"
  shows "success_packets (fst (send_batch_async clock net s b)) = success_packets s \<and>
         failed_packets (fst (send_batch_async clock net s b)) = failed_packets s"
proof (cases "py_range 0 (num_packets s) b")
  case (Inl e)
  then show ?thesis by (simp add: send_batch_async_def)
next
  case (Inr offsets)
  let ?s0 = "s\<lparr>start_time := Some (fst clock)\<rparr>"
  obtain s1 r where run: "for_batches net b offsets ?s0 = (s1, r)"
    by (cases "for_batches net b offsets ?s0")
  have "success_packets s1 = success_packets s \<and> failed_packets s1 = failed_packets s"
    using for_batches_no_attempts[OF assms, of net offsets ?s0] run by simp
  then show ?thesis using Inr run by (cases r) (simp_all add: send_batch_async_def Let_def)
qed

lemma send_batch_async_zero_batch:
  "send_batch_async clock net s 0 = (s\<lparr>start_time := Some (fst clock)\<rparr>, Inl ValueError)"
  by (simp add: send_batch_async_def py_range_def)

lemma send_batch_async_start_time:
  "start_time (fst (send_batch_async clock net s b)) = Some (fst clock)"
proof (cases "py_range 0 (num_packets s) b")
  case (Inl e)
  then show ?thesis by (simp add: send_batch_async_def)
next
  case (Inr offsets)
  let ?s0 = "s\<lparr>start_time := Some (fst clock)\<rparr>"
  obtain s1 r where run: "for_batches net b offsets ?s0 = (s1, r)"
    by (cases "for_batches net b offsets ?s0")
  have "start_time s1 = Some (fst clock)"
    using for_batches_start_time[of net b offsets ?s0] run by simp
  then show ?thesis using Inr run by (cases r) (simp_all add: send_batch_async_def Let_def)
qed

text \<open>
  C6, as stated, fails: a concurrency of 0 is not rejected, the run starts and all ten
  requests are issued; and a negative batch size together with a negative total runs
  four batches and ends without any error.
\<close>

theorem unchecked_concurrency_and_batch_size:
  "main (0, 2) always_200
     \<lparr>arg_url = ''http://target'', arg_num_packets = 10, arg_concurrency = 0,
       arg_method = ''GET'', arg_data = None, arg_batch_size = 5\<rparr> =
   Ran \<lparr>url = ''http://target'', num_packets = 10, concurrency = 0, http_method = ''GET'',
         data = None, headers = [(''User-Agent'', ''StressTest/1.0'')], sent_packets = 10,
         success_packets = 10, failed_packets = 0, start_time = Some 0, end_time = Some 2\<rparr>
       (Inr \<lparr>rp_url = ''http://target'', rp_sent = 10, rp_success = 10, rp_success_pct = 100,
              rp_failed = 0, rp_failed_pct = 0, rp_duration = 2, rp_packets_per_second = 5\<rparr>) \<and>
   main (0, 2) always_200
     \<lparr>arg_url = ''http://target'', arg_num_packets = - 10, arg_concurrency = 100,
       arg_method = ''GET'', arg_data = None, arg_batch_size = - 3\<rparr> =
   Ran \<lparr>url = ''http://target'', num_packets = - 10, concurrency = 100, http_method = ''GET'',
         data = None, headers = [(''User-Agent'', ''StressTest/1.0'')], sent_packets = - 24,
         success_packets = 0, failed_packets = 0, start_time = Some 0, end_time = Some 2\<rparr>
       (Inr \<lparr>rp_url = ''http://target'', rp_sent = - 24, rp_success = 0, rp_success_pct = 0,
              rp_failed = 0, rp_failed_pct = 0, rp_duration = 2, rp_packets_per_second = - 12\<rparr>)"
  by code_simp

text \<open>
  C6, amended: a method other than exactly GET or POST is rejected by the argument
  parser, before a sender exists. With GET or POST the run always starts (its start
  time is taken), whatever the concurrency and the batch size, and the concurrency
  reaches the sender unchanged. A
  batch size of 0 ends the run with \<^verbatim>\<open>ValueError\<close> at the loop header, before any
  batch. With a batch size of 0 or less no attempt is ever issued: every batch has an
  empty task list and the success and failure counters stay 0.
\<close>

theorem startup_checks:
  "(arg_method a \<notin> {''GET'', ''POST''} \<longrightarrow> main clock net a = UsageError) \<and>
   (arg_method a \<in> {''GET'', ''POST''} \<longrightarrow>
      (\<exists>s r. main clock net a = Ran s r \<and> concurrency s = arg_concurrency a \<and>
         start_time s = Some (fst clock))) \<and>
   (arg_method a \<in> {''GET'', ''POST''} \<and> arg_batch_size a = 0 \<longrightarrow>
      (\<exists>s. main clock net a = Ran s (Inl ValueError) \<and> sent_packets s = 0 \<and> end_time s = None)) \<and>
   (arg_batch_size a \<le> 0 \<longrightarrow>
      (\<forall>s caps i. batch_tasks s caps (current_batch_of s (arg_batch_size a) i) = []) \<and>
      (\<forall>s r. main clock net a = Ran s r \<longrightarrow> success_packets s = 0 \<and> failed_packets s = 0))"
proof -
  let ?p = "PacketSender_init (arg_url a) (arg_num_packets a) (arg_concurrency a)
              (arg_method a) (arg_data a) None"
  let ?run = "send_batch_async clock net ?p (arg_batch_size a)"
  have rej: "main clock net a = UsageError" if "arg_method a \<notin> {''GET'', ''POST''}"
    using that by (simp add: main_def)
  have ran: "main clock net a = Ran (fst ?run) (snd ?run)" if "arg_method a \<in> {''GET'', ''POST''}"
    using that by (auto simp: main_def split: prod.splits)
  have conc: "concurrency (fst (send_batch_async clock net s b)) = concurrency s" for s b
  proof (cases "py_range 0 (num_packets s) b")
    case (Inl e)
    then show ?thesis by (simp add: send_batch_async_def)
  next
    case (Inr offsets)
    have keep: "concurrency (fst (for_batches net b offs s')) = concurrency s'" for offs s'
    proof (induction offs arbitrary: s')
      case Nil
      then show ?case by simp
    next
      case (Cons i rest)
      obtain s'' r where step: "batch_step net b i s' = (s'', r)" by (cases "batch_step net b i s'")
      then have "concurrency s'' = concurrency s'"
        using fst_batch_step[of net b i s'] by (simp add: fold_results_def)
      then show ?case using step Cons.IH[of s''] by (cases r) simp_all
    qed
    obtain s1 r where run: "for_batches net b offsets (s\<lparr>start_time := Some (fst clock)\<rparr>) = (s1, r)"
      by (cases "for_batches net b offsets (s\<lparr>start_time := Some (fst clock)\<rparr>)")
    then have "concurrency s1 = concurrency s"
      using keep[of offsets "s\<lparr>start_time := Some (fst clock)\<rparr>"] by simp
    then show ?thesis using Inr run by (cases r) (simp_all add: send_batch_async_def Let_def)
  qed
  have c2: "\<exists>s r. main clock net a = Ran s r \<and> concurrency s = arg_concurrency a \<and>
              start_time s = Some (fst clock)"
    if m: "arg_method a \<in> {''GET'', ''POST''}"
  proof -
    have "concurrency (fst ?run) = arg_concurrency a"
      using conc[of ?p "arg_batch_size a"] by (simp add: PacketSender_init_def)
    moreover have "start_time (fst ?run) = Some (fst clock)"
      by (rule send_batch_async_start_time)
    ultimately show ?thesis using ran[OF m] by blast
  qed
  have c3: "\<exists>s. main clock net a = Ran s (Inl ValueError) \<and> sent_packets s = 0 \<and> end_time s = None"
    if m: "arg_method a \<in> {''GET'', ''POST''}" and z: "arg_batch_size a = 0"
  proof -
    have "?run = (?p\<lparr>start_time := Some (fst clock)\<rparr>, Inl ValueError)"
      using z by (simp add: send_batch_async_zero_batch)
    then have "main clock net a = Ran (?p\<lparr>start_time := Some (fst clock)\<rparr>) (Inl ValueError)"
      using ran[OF m] by simp
    moreover have "sent_packets (?p\<lparr>start_time := Some (fst clock)\<rparr>) = 0"
      "end_time (?p\<lparr>start_time := Some (fst clock)\<rparr>) = None"
      by (simp_all add: PacketSender_init_def)
    ultimately show ?thesis by blast
  qed
  have c4a: "\<forall>s caps i. batch_tasks s caps (current_batch_of s (arg_batch_size a) i) = []"
    if "arg_batch_size a \<le> 0"
    using that by (simp add: no_tasks_nonpositive_batch)
  have c4b: "\<forall>s r. main clock net a = Ran s r \<longrightarrow> success_packets s = 0 \<and> failed_packets s = 0"
    if le: "arg_batch_size a \<le> 0"
  proof (intro allI impI)
    fix s r assume res: "main clock net a = Ran s r"
    then have m: "arg_method a \<in> {''GET'', ''POST''}"
      using rej by (cases "arg_method a \<in> {''GET'', ''POST''}") auto
    then have "s = fst ?run" using ran[OF m] res by simp
    then show "success_packets s = 0 \<and> failed_packets s = 0"
      using send_batch_async_no_attempts[OF le, of clock net ?p] by (simp add: init_fields)
  qed
  show ?thesis using rej c2 c3 c4a c4b by blast
qed

theorem startup_checks_witness:
  "main (0, 2) always_200
     \<lparr>arg_url = ''http://target'', arg_num_packets = 10, arg_concurrency = 5,
       arg_method = ''PUT'', arg_data = None, arg_batch_size = 5\<rparr> = UsageError \<and>
   main (0, 2) always_200
     \<lparr>arg_url = ''http://target'', arg_num_packets = 10, arg_concurrency = 5,
       arg_method = ''get'', arg_data = None, arg_batch_size = 5\<rparr> = UsageError \<and>
   (\<exists>s. main (0, 2) always_200
     \<lparr>arg_url = ''http://target'', arg_num_packets = 10, arg_concurrency = 5,
       arg_method = ''GET'', arg_data = None, arg_batch_size = 0\<rparr> = Ran s (Inl ValueError) \<and>
       sent_packets s = 0 \<and> success_packets s = 0 \<and> failed_packets s = 0 \<and> end_time s = None) \<and>
   (\<exists>s r. main (0, 2) always_200
     \<lparr>arg_url = ''http://target'', arg_num_packets = 10, arg_concurrency = - 1,
       arg_method = ''POST'', arg_data = None, arg_batch_size = - 3\<rparr> = Ran s r \<and>
       concurrency s = - 1 \<and> success_packets s = 0 \<and> failed_packets s = 0)"
proof -
  let ?put = "\<lparr>arg_url = ''http://target'', arg_num_packets = 10, arg_concurrency = 5,
       arg_method = ''PUT'', arg_data = None, arg_batch_size = 5\<rparr>"
  let ?low = "\<lparr>arg_url = ''http://target'', arg_num_packets = 10, arg_concurrency = 5,
       arg_method = ''get'', arg_data = None, arg_batch_size = 5\<rparr>"
  let ?b0 = "\<lparr>arg_url = ''http://target'', arg_num_packets = 10, arg_concurrency = 5,
       arg_method = ''GET'', arg_data = None, arg_batch_size = 0\<rparr>"
  let ?neg = "\<lparr>arg_url = ''http://target'', arg_num_packets = 10, arg_concurrency = - 1,
       arg_method = ''POST'', arg_data = None, arg_batch_size = - 3\<rparr>"
  have w1: "main (0, 2) always_200 ?put = UsageError"
    using startup_checks[of ?put "(0, 2)" always_200] by simp
  have w2: "main (0, 2) always_200 ?low = UsageError"
    using startup_checks[of ?low "(0, 2)" always_200] by simp
  have w3: "\<exists>s. main (0, 2) always_200 ?b0 = Ran s (Inl ValueError) \<and>
       sent_packets s = 0 \<and> success_packets s = 0 \<and> failed_packets s = 0 \<and> end_time s = None"
  proof -
    note t = startup_checks[of ?b0 "(0, 2)" always_200]
    from t obtain s where s: "main (0, 2) always_200 ?b0 = Ran s (Inl ValueError)"
      "sent_packets s = 0" "end_time s = None" by auto
    moreover from t s(1) have "success_packets s = 0 \<and> failed_packets s = 0" by simp
    ultimately show ?thesis by blast
  qed
  have w4: "\<exists>s r. main (0, 2) always_200 ?neg = Ran s r \<and>
       concurrency s = - 1 \<and> success_packets s = 0 \<and> failed_packets s = 0"
  proof -
    note t = startup_checks[of ?neg "(0, 2)" always_200]
    from t obtain s r where s: "main (0, 2) always_200 ?neg = Ran s r" "concurrency s = - 1"
      by auto
    moreover from t s(1) have "success_packets s = 0 \<and> failed_packets s = 0" by simp
    ultimately show ?thesis by blast
  qed
  show ?thesis using w1 w2 w3 w4 by (simp only: simp_thms)
qed

end
